theory Spec2Isabelle
  imports Main
begin

section \<open>The realtime layer of backend/src/lib/socket.js\<close>

text \<open>
  \<^verbatim>\<open>initializeSocket\<close> keeps two JavaScript \<^verbatim>\<open>Map\<close>s, \<^verbatim>\<open>userSockets\<close> and
  \<^verbatim>\<open>userActivities\<close>, and installs nine event handlers on every socket. Each handler
  is embedded as a function from the state and the handling socket to the new state and
  the list of emissions it performs, in program order. \<^verbatim>\<open>console.log\<close> calls are left
  out: they touch neither the maps nor any socket.
\<close>

subsection \<open>Values\<close>

text \<open>
  A user id is whatever string the client puts into the event; the handlers never
  validate it. The only place where its value (rather than its identity as a key)
  matters is the test \<^verbatim>\<open>if (disconnectedUserId)\<close>, which is JavaScript truthiness: the
  empty string is falsy, every other string is truthy.

  A socket id is generated by the transport and is a non-empty string, so the tests
  \<^verbatim>\<open>if (targetSocketId)\<close> on the result of \<^verbatim>\<open>userSockets.get\<close> succeed exactly when
  the key is present. Socket ids are therefore kept abstract (numbered).
\<close>

type_synonym user_id = string
type_synonym socket_id = nat

definition truthy :: "user_id \<Rightarrow> bool" where
  "truthy s = (s \<noteq> [])"

subsection \<open>JavaScript Map: insertion-ordered, one entry per key\<close>

text \<open>
  \<^verbatim>\<open>Map.prototype.set\<close> overwrites the value of an existing key in place and appends a
  new key at the end; \<^verbatim>\<open>delete\<close> removes the key's entry; \<^verbatim>\<open>keys()\<close> and
  \<^verbatim>\<open>entries()\<close> enumerate in insertion order.
\<close>

type_synonym ('k, 'v) js_map = "('k \<times> 'v) list"

fun Map_set :: "'k \<Rightarrow> 'v \<Rightarrow> ('k, 'v) js_map \<Rightarrow> ('k, 'v) js_map" where
  "Map_set k v [] = [(k, v)]"
| "Map_set k v ((k', v') # es) =
     (if k' = k then (k, v) # es else (k', v') # Map_set k v es)"

fun Map_get :: "('k, 'v) js_map \<Rightarrow> 'k \<Rightarrow> 'v option" where
  "Map_get [] k = None"
| "Map_get ((k', v') # es) k = (if k' = k then Some v' else Map_get es k)"

fun Map_delete :: "'k \<Rightarrow> ('k, 'v) js_map \<Rightarrow> ('k, 'v) js_map" where
  "Map_delete k [] = []"
| "Map_delete k ((k', v') # es) =
     (if k' = k then Map_delete k es else (k', v') # Map_delete k es)"

definition Map_keys :: "('k, 'v) js_map \<Rightarrow> 'k list" where
  "Map_keys m = map fst m"

definition Map_entries :: "('k, 'v) js_map \<Rightarrow> ('k \<times> 'v) list" where
  "Map_entries m = m"

subsection \<open>Payloads of inbound events\<close>

record activity_update =
  au_userId :: user_id
  au_activity :: string

text \<open>\<^verbatim>\<open>profile_updated\<close> reads only \<^verbatim>\<open>clerkId\<close> (for the log) and re-emits the object as is.\<close>

record updated_user =
  clerkId :: string
  other_fields :: "(string \<times> string) list"

text \<open>Payload of \<^verbatim>\<open>follow_request\<close> and of \<^verbatim>\<open>follow_back_request\<close>.\<close>

record follow_data =
  targetUserId :: user_id
  requesterId :: user_id
  requesterName :: string
  requesterImageUrl :: string

record accept_data =
  acc_requesterId :: user_id
  accepterId :: user_id
  accepterName :: string
  accepterImageUrl :: string

record available_data =
  userId :: user_id
  userName :: string
  userImageUrl :: string

record message_data =
  senderId :: user_id
  receiverId :: user_id
  content :: string

text \<open>
  The exception a rejected \<^verbatim>\<open>Message.create\<close> raises; the handler reads only its
  \<^verbatim>\<open>message\<close> property.
\<close>

datatype js_error = Error (message: string)

subsection \<open>Emissions\<close>

text \<open>
  The outbound events, by name. The persisted \<^verbatim>\<open>Message\<close> document comes from
  \<^verbatim>\<open>models/message.model.js\<close>, which the socket layer treats as opaque: it is the type
  parameter \<open>'m\<close>.
\<close>

datatype 'm outbound =
    Ev_user_connected user_id
  | Ev_users_online "user_id list"
  | Ev_activities "(user_id \<times> string) list"
  | Ev_activity_updated user_id string
  | Ev_profile_updated updated_user
  | Ev_follow_request user_id string string
  | Ev_follow_accepted user_id string string
  | Ev_follow_back_request user_id string string
  | Ev_follow_back_available user_id string string
  | Ev_receive_message 'm
  | Ev_message_sent 'm
  | Ev_message_error string
  | Ev_user_disconnected user_id

text \<open>
  The three ways the file emits: \<^verbatim>\<open>io.emit\<close> reaches every open connection,
  \<^verbatim>\<open>io.to(id).emit\<close> reaches the connection with that id, \<^verbatim>\<open>socket.emit\<close> reaches the
  connection whose handler is running.
\<close>

datatype 'm emission =
    Io_emit "'m outbound"
  | Io_to_emit socket_id "'m outbound"
  | Socket_emit socket_id "'m outbound"

text \<open>What an open connection \<open>c\<close> receives from a list of emissions, in order.\<close>

fun received :: "socket_id \<Rightarrow> 'm emission list \<Rightarrow> 'm outbound list" where
  "received c [] = []"
| "received c (Io_emit ev # es) = ev # received c es"
| "received c (Io_to_emit t ev # es) = (if t = c then ev # received c es else received c es)"
| "received c (Socket_emit s ev # es) = (if s = c then ev # received c es else received c es)"

subsection \<open>State\<close>

text \<open>
  Besides the two maps, \<^verbatim>\<open>user_connected\<close> writes \<^verbatim>\<open>socket.handshake.auth\<close> of the
  handling socket and \<^verbatim>\<open>follow_back_available\<close> reads
  \<^verbatim>\<open>socket.handshake?.auth?.userId\<close>; \<open>handshake_auth\<close> holds that property for every
  socket (\<open>None\<close> when it is undefined).
\<close>

record state =
  userSockets :: "(user_id, socket_id) js_map"
  userActivities :: "(user_id, string) js_map"
  handshake_auth :: "socket_id \<Rightarrow> user_id option"

text \<open>
  The state when \<^verbatim>\<open>initializeSocket\<close> returns: both maps empty; \<open>a\<close> is what each
  future connection's handshake will carry.
\<close>

definition initial :: "(socket_id \<Rightarrow> user_id option) \<Rightarrow> state" where
  "initial a = \<lparr>userSockets = [], userActivities = [], handshake_auth = a\<rparr>"

subsection \<open>The handlers\<close>

definition user_connected :: "state \<Rightarrow> socket_id \<Rightarrow> user_id \<Rightarrow> state \<times> 'm emission list" where
  "user_connected st socket uid =
     (let st1 = st\<lparr>handshake_auth := (handshake_auth st)(socket \<mapsto> uid)\<rparr>;
          st2 = st1\<lparr>userSockets := Map_set uid socket (userSockets st1)\<rparr>;
          st3 = st2\<lparr>userActivities := Map_set uid ''Idle'' (userActivities st2)\<rparr>
      in (st3,
          [Io_emit (Ev_user_connected uid),
           Socket_emit socket (Ev_users_online (Map_keys (userSockets st3))),
           Io_emit (Ev_activities (Map_entries (userActivities st3)))]))"

definition update_activity :: "state \<Rightarrow> socket_id \<Rightarrow> activity_update \<Rightarrow> state \<times> 'm emission list" where
  "update_activity st socket d =
     (st\<lparr>userActivities := Map_set (au_userId d) (au_activity d) (userActivities st)\<rparr>,
      [Io_emit (Ev_activity_updated (au_userId d) (au_activity d))])"

definition profile_updated :: "state \<Rightarrow> socket_id \<Rightarrow> updated_user \<Rightarrow> state \<times> 'm emission list" where
  "profile_updated st socket updatedUser = (st, [Io_emit (Ev_profile_updated updatedUser)])"

definition follow_request :: "state \<Rightarrow> socket_id \<Rightarrow> follow_data \<Rightarrow> state \<times> 'm emission list" where
  "follow_request st socket d =
     (case Map_get (userSockets st) (targetUserId d) of
        Some targetSocketId \<Rightarrow>
          (st, [Io_to_emit targetSocketId
                  (Ev_follow_request (requesterId d) (requesterName d) (requesterImageUrl d))])
      | None \<Rightarrow> (st, []))"

definition follow_accepted :: "state \<Rightarrow> socket_id \<Rightarrow> accept_data \<Rightarrow> state \<times> 'm emission list" where
  "follow_accepted st socket d =
     (case Map_get (userSockets st) (acc_requesterId d) of
        Some requesterSocketId \<Rightarrow>
          (st, [Io_to_emit requesterSocketId
                  (Ev_follow_accepted (accepterId d) (accepterName d) (accepterImageUrl d))])
      | None \<Rightarrow> (st, []))"

definition follow_back_request :: "state \<Rightarrow> socket_id \<Rightarrow> follow_data \<Rightarrow> state \<times> 'm emission list" where
  "follow_back_request st socket d =
     (case Map_get (userSockets st) (targetUserId d) of
        Some targetSocketId \<Rightarrow>
          (st, [Io_to_emit targetSocketId
                  (Ev_follow_back_request (requesterId d) (requesterName d) (requesterImageUrl d))])
      | None \<Rightarrow> (st, []))"

text \<open>
  \<^verbatim>\<open>userSockets.get(socket.handshake?.auth?.userId)\<close>: with the property undefined the
  lookup key is \<^verbatim>\<open>undefined\<close>, which no entry has, since every key is a user id.
\<close>

definition follow_back_available :: "state \<Rightarrow> socket_id \<Rightarrow> available_data \<Rightarrow> state \<times> 'm emission list" where
  "follow_back_available st socket d =
     (case (case handshake_auth st socket of
              None \<Rightarrow> None
            | Some own \<Rightarrow> Map_get (userSockets st) own) of
        Some socketId \<Rightarrow>
          (st, [Io_to_emit socketId
                  (Ev_follow_back_available (userId d) (userName d) (userImageUrl d))])
      | None \<Rightarrow> (st, []))"

text \<open>
  \<^verbatim>\<open>send_message\<close> is the one asynchronous handler. Nothing before the \<^verbatim>\<open>await\<close>
  reads or writes the maps, so the handler acts on the state in which the awaited
  \<^verbatim>\<open>Message.create\<close> settles: \<open>st\<close> is that state. The storage collaborator is the
  parameter \<open>create\<close>, \<open>Inl\<close> being a rejection. \<open>send_message_try\<close> is the \<^verbatim>\<open>try\<close>
  block (its \<open>Inl\<close> is the exception that leaves it), \<open>send_message\<close> the whole
  handler with its \<^verbatim>\<open>catch\<close>.
\<close>

definition send_message_try ::
  "(message_data \<Rightarrow> js_error + 'm) \<Rightarrow> state \<Rightarrow> socket_id \<Rightarrow> message_data \<Rightarrow> js_error + 'm emission list" where
  "send_message_try create st socket d =
     (case create \<lparr>senderId = senderId d, receiverId = receiverId d, content = content d\<rparr> of
        Inl error \<Rightarrow> Inl error
      | Inr msg \<Rightarrow>
          Inr ((case Map_get (userSockets st) (receiverId d) of
                  Some receiverSocketId \<Rightarrow> [Io_to_emit receiverSocketId (Ev_receive_message msg)]
                | None \<Rightarrow> [])
               @ [Socket_emit socket (Ev_message_sent msg)]))"

definition send_message ::
  "(message_data \<Rightarrow> js_error + 'm) \<Rightarrow> state \<Rightarrow> socket_id \<Rightarrow> message_data \<Rightarrow> state \<times> 'm emission list" where
  "send_message create st socket d =
     (case send_message_try create st socket d of
        Inr out \<Rightarrow> (st, out)
      | Inl error \<Rightarrow> (st, [Socket_emit socket (Ev_message_error (message error))]))"

text \<open>
  The \<^verbatim>\<open>for ... of userSockets.entries()\<close> loop of the disconnect handler: at the first
  entry whose socket id is the closing socket's, it records the user id, deletes that
  key from both maps and breaks. The first component of the result is
  \<^verbatim>\<open>disconnectedUserId\<close> (\<open>None\<close> while still undefined).
\<close>

fun disconnect_loop ::
  "socket_id \<Rightarrow> (user_id \<times> socket_id) list \<Rightarrow> state \<Rightarrow> user_id option \<times> state" where
  "disconnect_loop socket [] st = (None, st)"
| "disconnect_loop socket ((uid, socketId) # rest) st =
     (if socketId = socket
      then (Some uid,
            st\<lparr>userSockets := Map_delete uid (userSockets st),
               userActivities := Map_delete uid (userActivities st)\<rparr>)
      else disconnect_loop socket rest st)"

definition disconnect :: "state \<Rightarrow> socket_id \<Rightarrow> state \<times> 'm emission list" where
  "disconnect st socket =
     (case disconnect_loop socket (Map_entries (userSockets st)) st of
        (disconnectedUserId, st') \<Rightarrow>
          (st', case disconnectedUserId of
                  None \<Rightarrow> []
                | Some uid \<Rightarrow> if truthy uid then [Io_emit (Ev_user_disconnected uid)] else []))"

subsection \<open>Sequences of inbound events\<close>

text \<open>
  An inbound event as the server sees it. \<open>On_send_message\<close> carries, next to the
  payload, how its \<^verbatim>\<open>Message.create\<close> call settles, so that a sequence can mix
  successful and failing writes; the events of a sequence are in the order in which
  their handlers act on the state.
\<close>

datatype 'm inbound =
    On_user_connected user_id
  | On_update_activity activity_update
  | On_profile_updated updated_user
  | On_follow_request follow_data
  | On_follow_accepted accept_data
  | On_follow_back_request follow_data
  | On_follow_back_available available_data
  | On_send_message message_data "js_error + 'm"
  | On_disconnect

fun handle :: "state \<Rightarrow> socket_id \<Rightarrow> 'm inbound \<Rightarrow> state \<times> 'm emission list" where
  "handle st socket (On_user_connected uid) = user_connected st socket uid"
| "handle st socket (On_update_activity d) = update_activity st socket d"
| "handle st socket (On_profile_updated u) = profile_updated st socket u"
| "handle st socket (On_follow_request d) = follow_request st socket d"
| "handle st socket (On_follow_accepted d) = follow_accepted st socket d"
| "handle st socket (On_follow_back_request d) = follow_back_request st socket d"
| "handle st socket (On_follow_back_available d) = follow_back_available st socket d"
| "handle st socket (On_send_message d res) = send_message (\<lambda>_. res) st socket d"
| "handle st socket On_disconnect = disconnect st socket"

fun run :: "state \<Rightarrow> (socket_id \<times> 'm inbound) list \<Rightarrow> state \<times> 'm emission list" where
  "run st [] = (st, [])"
| "run st ((socket, ev) # evs) =
     (case handle st socket ev of
        (st', out) \<Rightarrow> (case run st' evs of (st'', out') \<Rightarrow> (st'', out @ out')))"

subsection \<open>Observations on sequences\<close>

text \<open>The \<^verbatim>\<open>user_connected\<close> events of a sequence, as (connection, user id) pairs.\<close>

fun binds :: "(socket_id \<times> 'm inbound) list \<Rightarrow> (socket_id \<times> user_id) list" where
  "binds [] = []"
| "binds ((socket, On_user_connected uid) # evs) = (socket, uid) # binds evs"
| "binds (_ # evs) = binds evs"

text \<open>No connection sends \<^verbatim>\<open>user_connected\<close> with two different user ids.\<close>

definition one_identity_per_connection :: "(socket_id \<times> 'm inbound) list \<Rightarrow> bool" where
  "one_identity_per_connection evs =
     list_all (\<lambda>b. list_all (\<lambda>b'. fst b = fst b' \<longrightarrow> snd b = snd b') (binds evs)) (binds evs)"

text \<open>
  Every \<^verbatim>\<open>update_activity\<close> of the sequence names a user id that is a key of
  \<^verbatim>\<open>userSockets\<close> at the moment it is handled.
\<close>

fun activity_of_bound :: "state \<Rightarrow> (socket_id \<times> 'm inbound) list \<Rightarrow> bool" where
  "activity_of_bound st [] = True"
| "activity_of_bound st ((socket, ev) # evs) =
     ((case ev of
         On_update_activity d \<Rightarrow> au_userId d \<in> set (Map_keys (userSockets st))
       | _ \<Rightarrow> True)
      \<and> activity_of_bound (fst (handle st socket ev)) evs)"

text \<open>
  The key a handler passes to \<^verbatim>\<open>userSockets.get\<close>, for the handlers that call it:
  \<^verbatim>\<open>targetUserId\<close>, \<^verbatim>\<open>requesterId\<close>, \<^verbatim>\<open>socket.handshake?.auth?.userId\<close>, and
  \<^verbatim>\<open>receiverId\<close> once the message is stored.
\<close>

fun lookup_key :: "state \<Rightarrow> socket_id \<Rightarrow> 'm inbound \<Rightarrow> user_id option" where
  "lookup_key st socket (On_follow_request d) = Some (targetUserId d)"
| "lookup_key st socket (On_follow_accepted d) = Some (acc_requesterId d)"
| "lookup_key st socket (On_follow_back_request d) = Some (targetUserId d)"
| "lookup_key st socket (On_follow_back_available d) = handshake_auth st socket"
| "lookup_key st socket (On_send_message d res) =
     (case res of Inr msg \<Rightarrow> Some (receiverId d) | Inl error \<Rightarrow> None)"
| "lookup_key st socket _ = None"

section \<open>Properties\<close>

subsection \<open>The Map operations\<close>

lemma Map_get_map_of: "Map_get m k = map_of m k"
  by (induction m) auto

lemma Map_delete_filter: "Map_delete k m = filter (\<lambda>e. fst e \<noteq> k) m"
  by (induction m) auto

lemma Map_keys_set:
  "Map_keys (Map_set k v m) = (if k \<in> set (Map_keys m) then Map_keys m else Map_keys m @ [k])"
  by (induction m) (force simp: Map_keys_def)+

lemma Map_keys_delete: "Map_keys (Map_delete k m) = removeAll k (Map_keys m)"
  by (induction m) (auto simp: Map_keys_def)

lemma Map_get_set: "Map_get (Map_set k v m) k' = (if k' = k then Some v else Map_get m k')"
  by (induction m) auto

lemma Map_get_delete: "Map_get (Map_delete k m) k' = (if k' = k then None else Map_get m k')"
  by (induction m) auto

lemma Map_get_None_iff: "Map_get m k = None \<longleftrightarrow> k \<notin> set (Map_keys m)"
  by (simp add: Map_get_map_of map_of_eq_None_iff Map_keys_def)

lemma set_keys_Map_set: "set (Map_keys (Map_set k v m)) = insert k (set (Map_keys m))"
  by (auto simp: Map_keys_set)

lemma set_keys_Map_delete: "set (Map_keys (Map_delete k m)) = set (Map_keys m) - {k}"
  by (simp add: Map_keys_delete)

lemma distinct_Map_set: "distinct (Map_keys m) \<Longrightarrow> distinct (Map_keys (Map_set k v m))"
  by (simp add: Map_keys_set)

lemma distinct_Map_delete: "distinct (Map_keys m) \<Longrightarrow> distinct (Map_keys (Map_delete k m))"
  by (simp add: Map_keys_delete distinct_removeAll)

lemma set_Map_set_subset: "set (Map_set k v m) \<subseteq> insert (k, v) (set m)"
  by (induction m) (auto split: if_splits)

lemma set_Map_delete_subset: "set (Map_delete k m) \<subseteq> set m"
  by (simp add: Map_delete_filter)

subsection \<open>Sending a message\<close>

text \<open>
  C1. When \<^verbatim>\<open>Message.create\<close> succeeds with the document \<open>msg\<close>, the handler leaves the
  state alone and emits, in this order: one \<^verbatim>\<open>receive_message\<close> with \<open>msg\<close> to the
  connection stored for \<^verbatim>\<open>receiverId\<close>, if there is one, and one \<^verbatim>\<open>message_sent\<close> with
  \<open>msg\<close> to the connection that sent the event. So an open connection \<open>c\<close> receives
  \<^verbatim>\<open>receive_message\<close> exactly when the registry maps the receiver to \<open>c\<close>,
  \<^verbatim>\<open>message_sent\<close> exactly when \<open>c\<close> is the sending connection, and nothing else.
\<close>

theorem send_message_success:
  assumes "create \<lparr>senderId = senderId d, receiverId = receiverId d, content = content d\<rparr> = Inr msg"
  shows "send_message create st socket d =
           (st, (case Map_get (userSockets st) (receiverId d) of
                   Some r \<Rightarrow> [Io_to_emit r (Ev_receive_message msg)]
                 | None \<Rightarrow> [])
                @ [Socket_emit socket (Ev_message_sent msg)])
         \<and> received c (snd (send_message create st socket d)) =
             (if Map_get (userSockets st) (receiverId d) = Some c then [Ev_receive_message msg] else [])
             @ (if c = socket then [Ev_message_sent msg] else [])"
  using assms by (auto simp: send_message_def send_message_try_def split: option.splits)

theorem send_message_success_witness:
  "send_message (\<lambda>d. Inr (content d)) (initial (\<lambda>_. None)\<lparr>userSockets := [(''B'', 2)]\<rparr>) 1
       \<lparr>senderId = ''A'', receiverId = ''B'', content = ''hi''\<rparr>
     = (initial (\<lambda>_. None)\<lparr>userSockets := [(''B'', 2)]\<rparr>,
        [Io_to_emit 2 (Ev_receive_message ''hi''), Socket_emit 1 (Ev_message_sent ''hi'')])
   \<and> received 2 (snd (send_message (\<lambda>d. Inr (content d)) (initial (\<lambda>_. None)\<lparr>userSockets := [(''B'', 2)]\<rparr>) 1
       \<lparr>senderId = ''A'', receiverId = ''B'', content = ''hi''\<rparr>)) = [Ev_receive_message ''hi'']"
  using send_message_success [of "\<lambda>d. Inr (content d)" "\<lparr>senderId = ''A'', receiverId = ''B'', content = ''hi''\<rparr>" "''hi''"
      "initial (\<lambda>_. None)\<lparr>userSockets := [(''B'', 2)]\<rparr>" 1 2]
  by (simp add: initial_def)

text \<open>
  C2. When \<^verbatim>\<open>Message.create\<close> fails with \<open>err\<close>, the \<^verbatim>\<open>catch\<close> turns the exception
  into the handler's normal result: the state is the one before, and the only emission
  is one \<^verbatim>\<open>message_error\<close> carrying \<^verbatim>\<open>err.message\<close> to the connection that sent the
  event; every other connection receives nothing.
\<close>

theorem send_message_failure:
  assumes "create \<lparr>senderId = senderId d, receiverId = receiverId d, content = content d\<rparr> = Inl err"
  shows "send_message create st socket d = (st, [Socket_emit socket (Ev_message_error (message err))])
         \<and> received c (snd (send_message create st socket d)) =
             (if c = socket then [Ev_message_error (message err)] else [])"
  using assms by (auto simp: send_message_def send_message_try_def)

theorem send_message_failure_witness:
  "send_message (\<lambda>d. Inl (Error ''validation failed'') :: js_error + nat) (initial (\<lambda>_. None)\<lparr>userSockets := [(''B'', 2)]\<rparr>) 1
       \<lparr>senderId = ''A'', receiverId = ''B'', content = ''hi''\<rparr>
     = (initial (\<lambda>_. None)\<lparr>userSockets := [(''B'', 2)]\<rparr>,
        [Socket_emit 1 (Ev_message_error ''validation failed'')])
   \<and> received 2 (snd (send_message (\<lambda>d. Inl (Error ''validation failed'') :: js_error + nat)
         (initial (\<lambda>_. None)\<lparr>userSockets := [(''B'', 2)]\<rparr>) 1
         \<lparr>senderId = ''A'', receiverId = ''B'', content = ''hi''\<rparr>)) = []"
  using send_message_failure [of "\<lambda>d. Inl (Error ''validation failed'') :: js_error + nat"
      "\<lparr>senderId = ''A'', receiverId = ''B'', content = ''hi''\<rparr>" "Error ''validation failed''"
      "initial (\<lambda>_. None)\<lparr>userSockets := [(''B'', 2)]\<rparr>" 1 2]
  by simp

subsection \<open>Binding a connection\<close>

text \<open>
  C5. \<^verbatim>\<open>user_connected\<close> with user id \<open>u\<close> on connection \<open>socket\<close> stores \<open>u\<close> as the
  connection's own identity, makes the registry map \<open>u\<close> to \<open>socket\<close> and the activity map
  map \<open>u\<close> to \<^verbatim>\<open>"Idle"\<close>, every other key keeping its value, and emits three events: a
  \<^verbatim>\<open>user_connected\<close> broadcast carrying \<open>u\<close>, \<^verbatim>\<open>users_online\<close> with all keys of the
  updated registry (the old ones and \<open>u\<close>) to \<open>socket\<close> alone, and an \<^verbatim>\<open>activities\<close> broadcast
  with all entries of the updated activity map.
\<close>

theorem user_connected_binds:
  "user_connected st socket u =
     (st\<lparr>handshake_auth := (handshake_auth st)(socket \<mapsto> u),
         userSockets := Map_set u socket (userSockets st),
         userActivities := Map_set u ''Idle'' (userActivities st)\<rparr>,
      [Io_emit (Ev_user_connected u),
       Socket_emit socket (Ev_users_online (Map_keys (Map_set u socket (userSockets st)))),
       Io_emit (Ev_activities (Map_set u ''Idle'' (userActivities st)))])
   \<and> Map_get (userSockets (fst (user_connected st socket u :: state \<times> 'm emission list))) k =
       (if k = u then Some socket else Map_get (userSockets st) k)
   \<and> Map_get (userActivities (fst (user_connected st socket u :: state \<times> 'm emission list))) k =
       (if k = u then Some ''Idle'' else Map_get (userActivities st) k)
   \<and> set (Map_keys (Map_set u socket (userSockets st))) = insert u (set (Map_keys (userSockets st)))
   \<and> received c (snd (user_connected st socket u :: state \<times> 'm emission list)) =
       Ev_user_connected u
       # (if c = socket then [Ev_users_online (Map_keys (Map_set u socket (userSockets st)))] else [])
       @ [Ev_activities (Map_set u ''Idle'' (userActivities st))]"
  by (simp add: user_connected_def Let_def Map_get_set Map_keys_set Map_entries_def insert_absorb)

theorem user_connected_binds_witness:
  "(user_connected (initial (\<lambda>_. None)\<lparr>userSockets := [(''U1'', 1)], userActivities := [(''U1'', ''Playing'')]\<rparr>) 2 ''U1''
      :: state \<times> nat emission list)
   = (\<lparr>userSockets = [(''U1'', 2)], userActivities = [(''U1'', ''Idle'')],
       handshake_auth = (\<lambda>_. None)(2 \<mapsto> ''U1'')\<rparr>,
      [Io_emit (Ev_user_connected ''U1''), Socket_emit 2 (Ev_users_online [''U1'']),
       Io_emit (Ev_activities [(''U1'', ''Idle'')])])"
  using user_connected_binds [where st = "initial (\<lambda>_. None)\<lparr>userSockets := [(''U1'', 1)], userActivities := [(''U1'', ''Playing'')]\<rparr>"
      and socket = 2 and u = "''U1''" and k = "''U1''" and c = 2]
  by (simp add: initial_def Map_keys_def user_connected_def Let_def Map_entries_def)

subsection \<open>Directed notifications\<close>

text \<open>
  C6. \<^verbatim>\<open>follow_request\<close> never changes the state. An open connection \<open>c\<close> receives one
  \<^verbatim>\<open>follow_request\<close> event, made of \<^verbatim>\<open>requesterId\<close>, \<^verbatim>\<open>requesterName\<close> and
  \<^verbatim>\<open>requesterImageUrl\<close> without \<^verbatim>\<open>targetUserId\<close>, when the registry maps the target to
  \<open>c\<close>, and nothing otherwise; with the target absent from the registry the handler emits
  nothing at all, so nothing reaches the sender either.
\<close>

theorem follow_request_routing:
  "fst (follow_request st socket d :: state \<times> 'm emission list) = st
   \<and> received c (snd (follow_request st socket d :: state \<times> 'm emission list)) =
       (if Map_get (userSockets st) (targetUserId d) = Some c
        then [Ev_follow_request (requesterId d) (requesterName d) (requesterImageUrl d)] else [])
   \<and> (snd (follow_request st socket d :: state \<times> 'm emission list) =
       (case Map_get (userSockets st) (targetUserId d) of
          Some t \<Rightarrow> [Io_to_emit t (Ev_follow_request (requesterId d) (requesterName d) (requesterImageUrl d))]
        | None \<Rightarrow> []))"
  by (simp add: follow_request_def split: option.splits)

theorem follow_request_routing_witness:
  "(follow_request (initial (\<lambda>_. None)\<lparr>userSockets := [(''A'', 1), (''B'', 2)]\<rparr>) 1
      \<lparr>targetUserId = ''B'', requesterId = ''A'', requesterName = ''Ann'', requesterImageUrl = ''a.png''\<rparr>
      :: state \<times> nat emission list)
   = (initial (\<lambda>_. None)\<lparr>userSockets := [(''A'', 1), (''B'', 2)]\<rparr>,
      [Io_to_emit 2 (Ev_follow_request ''A'' ''Ann'' ''a.png'')])"
  using follow_request_routing [where st = "initial (\<lambda>_. None)\<lparr>userSockets := [(''A'', 1), (''B'', 2)]\<rparr>"
      and socket = 1 and c = 2
      and d = "\<lparr>targetUserId = ''B'', requesterId = ''A'', requesterName = ''Ann'', requesterImageUrl = ''a.png''\<rparr>"]
  by (simp add: follow_request_def initial_def)

text \<open>
  C10. The handlers of \<^verbatim>\<open>profile_updated\<close>, \<^verbatim>\<open>follow_request\<close>, \<^verbatim>\<open>follow_accepted\<close>,
  \<^verbatim>\<open>follow_back_request\<close>, \<^verbatim>\<open>follow_back_available\<close> and \<^verbatim>\<open>send_message\<close> return the
  state they were given, whatever the payload, whether or not the target is in the
  registry, and whether \<^verbatim>\<open>Message.create\<close> succeeds or fails.
\<close>

theorem routed_events_frame:
  "fst (profile_updated st socket p :: state \<times> 'm emission list) = st
   \<and> fst (follow_request st socket fd :: state \<times> 'm emission list) = st
   \<and> fst (follow_accepted st socket ad :: state \<times> 'm emission list) = st
   \<and> fst (follow_back_request st socket fd :: state \<times> 'm emission list) = st
   \<and> fst (follow_back_available st socket vd :: state \<times> 'm emission list) = st
   \<and> fst (send_message create st socket md :: state \<times> 'm emission list) = st"
  by (simp add: profile_updated_def follow_request_def follow_accepted_def follow_back_request_def
      follow_back_available_def send_message_def split: option.splits sum.splits)

theorem routed_events_frame_witness:
  "fst (send_message (\<lambda>d. Inl (Error ''down'') :: js_error + nat)
          (initial (\<lambda>_. None)\<lparr>userSockets := [(''B'', 2)], userActivities := [(''B'', ''Idle'')]\<rparr>) 1
          \<lparr>senderId = ''A'', receiverId = ''B'', content = ''hi''\<rparr>)
     = initial (\<lambda>_. None)\<lparr>userSockets := [(''B'', 2)], userActivities := [(''B'', ''Idle'')]\<rparr>
   \<and> fst (follow_accepted
          (initial (\<lambda>_. None)\<lparr>userSockets := [(''B'', 2)], userActivities := [(''B'', ''Idle'')]\<rparr>) 1
          \<lparr>acc_requesterId = ''B'', accepterId = ''A'', accepterName = ''Ann'', accepterImageUrl = ''a.png''\<rparr>
          :: state \<times> nat emission list)
     = initial (\<lambda>_. None)\<lparr>userSockets := [(''B'', 2)], userActivities := [(''B'', ''Idle'')]\<rparr>"
  using routed_events_frame [where st = "initial (\<lambda>_. None)\<lparr>userSockets := [(''B'', 2)], userActivities := [(''B'', ''Idle'')]\<rparr>"
      and socket = 1 and create = "\<lambda>d. Inl (Error ''down'') :: js_error + nat"
      and md = "\<lparr>senderId = ''A'', receiverId = ''B'', content = ''hi''\<rparr>"
      and ad = "\<lparr>acc_requesterId = ''B'', accepterId = ''A'', accepterName = ''Ann'', accepterImageUrl = ''a.png''\<rparr>"]
  by simp

subsection \<open>Closing a connection\<close>

lemma find_Some_holds: "find P xs = Some x \<Longrightarrow> P x"
  by (induction xs) (auto split: if_splits)

lemma disconnect_loop_find:
  "disconnect_loop c es st =
     (case find (\<lambda>e. snd e = c) es of
        None \<Rightarrow> (None, st)
      | Some e \<Rightarrow> (Some (fst e),
                   st\<lparr>userSockets := Map_delete (fst e) (userSockets st),
                      userActivities := Map_delete (fst e) (userActivities st)\<rparr>))"
  by (induction c es st rule: disconnect_loop.induct) auto

lemma disconnect_eq:
  "disconnect st c =
     (case find (\<lambda>e. snd e = c) (userSockets st) of
        None \<Rightarrow> (st, [])
      | Some e \<Rightarrow>
          (st\<lparr>userSockets := Map_delete (fst e) (userSockets st),
              userActivities := Map_delete (fst e) (userActivities st)\<rparr>,
           if truthy (fst e) then [Io_emit (Ev_user_disconnected (fst e))] else []))"
  by (simp add: disconnect_def disconnect_loop_find Map_entries_def split: option.splits)

text \<open>
  A connection that no entry holds: nothing changes and nothing is emitted. In
  particular a connection whose identity has been taken over by a newer connection
  removes nothing when it closes.
\<close>

lemma disconnect_unbound:
  assumes "\<forall>e \<in> set (userSockets st). snd e \<noteq> c"
  shows "disconnect st c = (st, [])"
proof -
  from assms have "find (\<lambda>e. snd e = c) (userSockets st) = None"
    by (auto simp: find_None_iff)
  then show ?thesis by (simp add: disconnect_eq)
qed

text \<open>
  A connection that some entry holds, the first such entry being that of a truthy user
  id \<open>u\<close>: the entries of \<open>u\<close> leave both maps, every other key keeps its values, and
  the one emission is the \<^verbatim>\<open>user_disconnected\<close> broadcast carrying \<open>u\<close>.
\<close>

lemma disconnect_bound:
  assumes "find (\<lambda>e. snd e = c) (userSockets st) = Some (u, c')" and "truthy u"
  shows "c' = c"
    and "disconnect st c =
           (st\<lparr>userSockets := Map_delete u (userSockets st),
               userActivities := Map_delete u (userActivities st)\<rparr>,
            [Io_emit (Ev_user_disconnected u)])"
    and "Map_get (userSockets (fst (disconnect st c :: state \<times> 'm emission list))) k =
           (if k = u then None else Map_get (userSockets st) k)"
    and "Map_get (userActivities (fst (disconnect st c :: state \<times> 'm emission list))) k =
           (if k = u then None else Map_get (userActivities st) k)"
proof -
  from assms(1) show "c' = c"
    by (auto dest: find_Some_holds)
  show "disconnect st c =
           (st\<lparr>userSockets := Map_delete u (userSockets st),
               userActivities := Map_delete u (userActivities st)\<rparr>,
            [Io_emit (Ev_user_disconnected u)])"
    using assms by (simp add: disconnect_eq)
  show "Map_get (userSockets (fst (disconnect st c :: state \<times> 'm emission list))) k =
           (if k = u then None else Map_get (userSockets st) k)"
    using assms by (simp add: disconnect_eq Map_get_delete)
  show "Map_get (userActivities (fst (disconnect st c :: state \<times> 'm emission list))) k =
           (if k = u then None else Map_get (userActivities st) k)"
    using assms by (simp add: disconnect_eq Map_get_delete)
qed

text \<open>
  C4. The claim promises the \<^verbatim>\<open>user_disconnected\<close> broadcast whenever an entry holds the
  closing connection. The handler guards the broadcast with \<^verbatim>\<open>if (disconnectedUserId)\<close>,
  which is false for the empty user id. After \<^verbatim>\<open>user_connected\<close> with the empty string
  on connection 1, which registers and announces that user id like any other, closing
  connection 1 removes both entries and emits nothing.
\<close>

theorem disconnect_empty_identity:
  "Map_get (userSockets (fst (user_connected (initial (\<lambda>_. None)) 1 '''' :: state \<times> nat emission list))) '''' = Some 1
   \<and> snd (user_connected (initial (\<lambda>_. None)) 1 '''' :: state \<times> nat emission list)
       = [Io_emit (Ev_user_connected ''''), Socket_emit 1 (Ev_users_online ['''']),
          Io_emit (Ev_activities [('''', ''Idle'')])]
   \<and> (disconnect (fst (user_connected (initial (\<lambda>_. None)) 1 '''' :: state \<times> nat emission list)) 1
         :: state \<times> nat emission list)
       = (\<lparr>userSockets = [], userActivities = [], handshake_auth = (\<lambda>_. None)(1 \<mapsto> '''')\<rparr>, [])"
  by (simp add: user_connected_def disconnect_def initial_def Let_def Map_entries_def Map_keys_def
      truthy_def)

subsection \<open>Sequences of events\<close>

lemma run_Cons: "fst (run st ((s, e) # evs)) = fst (run (fst (handle st s e)) evs)"
  by (simp split: prod.splits)

lemma run_append: "fst (run st (xs @ ys)) = fst (run (fst (run st xs)) ys)"
proof (induction xs arbitrary: st)
  case Nil
  then show ?case by simp
next
  case (Cons x xs)
  obtain s e where x: "x = (s, e)" by (cases x)
  show ?case by (simp only: x append_Cons run_Cons Cons.IH)
qed

lemma binds_Cons: "set (binds ((s, e) # evs)) =
    (case e of On_user_connected u \<Rightarrow> {(s, u)} | _ \<Rightarrow> {}) \<union> set (binds evs)"
  by (cases e) simp_all

text \<open>The registry gains an entry only through \<^verbatim>\<open>user_connected\<close>, and only (user id, sender).\<close>

lemma handle_userSockets_subset:
  "set (userSockets (fst (handle st s e))) \<subseteq>
     set (userSockets st) \<union> (case e of On_user_connected u \<Rightarrow> {(u, s)} | _ \<Rightarrow> {})"
proof (cases e)
  case (On_user_connected u)
  then show ?thesis
    using set_Map_set_subset [of u s "userSockets st"] by (auto simp: user_connected_def Let_def)
next
  case On_disconnect
  show ?thesis
    using set_Map_delete_subset [of _ "userSockets st"]
    by (auto simp: On_disconnect disconnect_eq split: option.splits)
qed (simp_all add: update_activity_def profile_updated_def follow_request_def follow_accepted_def
      follow_back_request_def follow_back_available_def send_message_def
      split: option.splits sum.splits)

text \<open>One entry per user id: the keys of the registry stay distinct.\<close>

lemma handle_distinct_keys:
  assumes "distinct (Map_keys (userSockets st))"
  shows "distinct (Map_keys (userSockets (fst (handle st s e))))"
proof (cases e)
  case (On_user_connected u)
  then show ?thesis
    using assms by (simp add: user_connected_def Let_def distinct_Map_set)
next
  case On_disconnect
  show ?thesis
    using assms by (simp add: On_disconnect disconnect_eq distinct_Map_delete split: option.splits)
qed (use assms in \<open>simp_all add: update_activity_def profile_updated_def follow_request_def
      follow_accepted_def follow_back_request_def follow_back_available_def send_message_def
      split: option.splits sum.splits\<close>)

lemma run_distinct_keys:
  "distinct (Map_keys (userSockets st)) \<Longrightarrow> distinct (Map_keys (userSockets (fst (run st evs))))"
proof (induction evs arbitrary: st)
  case Nil
  then show ?case by simp
next
  case (Cons x evs)
  obtain s e where x: "x = (s, e)" by (cases x)
  show ?case
    unfolding x run_Cons using Cons.prems by (intro Cons.IH handle_distinct_keys)
qed

lemma run_entries_bound:
  assumes "\<forall>(u, c) \<in> set (userSockets st). (c, u) \<in> B"
  shows "\<forall>(u, c) \<in> set (userSockets (fst (run st evs))). (c, u) \<in> B \<union> set (binds evs)"
  using assms
proof (induction evs arbitrary: st B)
  case Nil
  then show ?case by simp
next
  case (Cons x evs)
  obtain s e where x: "x = (s, e)" by (cases x)
  let ?N = "case e of On_user_connected u \<Rightarrow> {(s, u)} | _ \<Rightarrow> {}"
  have "\<forall>(u, c) \<in> set (userSockets (fst (handle st s e))). (c, u) \<in> B \<union> ?N"
    using handle_userSockets_subset [of st s e] Cons.prems
    by (cases e) (auto split: inbound.splits)
  from Cons.IH [OF this] show ?case
    unfolding x run_Cons binds_Cons by (simp add: Un_assoc)
qed

text \<open>
  C3, as the code has it. Nothing stops a connection from sending \<^verbatim>\<open>user_connected\<close>
  twice with different user ids, and then two entries hold that connection. On every
  sequence of inbound events from the empty state in which no connection does so, the
  connections stored in the registry are pairwise different.
\<close>

theorem registry_connections_distinct:
  assumes "one_identity_per_connection evs"
  shows "distinct (map snd (userSockets (fst (run (initial a) evs))))"
proof -
  let ?reg = "userSockets (fst (run (initial a) evs))"
  have keys: "distinct (map fst ?reg)"
    using run_distinct_keys [of "initial a" evs] by (simp add: initial_def Map_keys_def)
  then have d: "distinct ?reg"
    by (simp add: distinct_map)
  have bound: "\<forall>(u, c) \<in> set ?reg. (c, u) \<in> set (binds evs)"
    using run_entries_bound [of "initial a" "{}" evs] by (simp add: initial_def)
  have "inj_on snd (set ?reg)"
  proof (rule inj_onI)
    fix x y assume x: "x \<in> set ?reg" and y: "y \<in> set ?reg" and eq: "snd x = snd y"
    from bound x have bx: "(snd x, fst x) \<in> set (binds evs)" by (cases x) auto
    from bound y have "(snd y, fst y) \<in> set (binds evs)" by (cases y) auto
    with bx eq assms have "fst x = fst y"
      unfolding one_identity_per_connection_def list_all_iff by fastforce
    with eq show "x = y" by (simp add: prod_eq_iff)
  qed
  with d show ?thesis by (simp add: distinct_map)
qed

theorem registry_connections_distinct_witness:
  "one_identity_per_connection [(1, On_user_connected ''U1''), (2, On_user_connected ''U2''),
       (1, On_disconnect), (3 :: nat, On_user_connected ''U2'' :: nat inbound)]
   \<and> distinct (map snd (userSockets (fst (run (initial (\<lambda>_. None))
       [(1, On_user_connected ''U1''), (2, On_user_connected ''U2''),
        (1, On_disconnect), (3, On_user_connected ''U2'' :: nat inbound)]))))"
proof -
  have h: "one_identity_per_connection [(1, On_user_connected ''U1''), (2, On_user_connected ''U2''),
       (1, On_disconnect), (3 :: nat, On_user_connected ''U2'' :: nat inbound)]"
    by (simp add: one_identity_per_connection_def)
  show ?thesis
    using h registry_connections_distinct [OF h, of "\<lambda>_. None"] by simp
qed

text \<open>
  The sequence on which C3 as written fails: connection 1 binds \<open>U1\<close>, then \<open>U2\<close>.
\<close>

theorem two_identities_one_connection:
  "userSockets (fst (run (initial (\<lambda>_. None))
       [(1, On_user_connected ''U1''), (1, On_user_connected ''U2'' :: nat inbound)]))
     = [(''U1'', 1), (''U2'', 1)]
   \<and> \<not> distinct (map snd (userSockets (fst (run (initial (\<lambda>_. None))
       [(1, On_user_connected ''U1''), (1, On_user_connected ''U2'' :: nat inbound)]))))"
  by (simp add: initial_def user_connected_def Let_def)

subsection \<open>Membership of the registry and of the activity map\<close>

lemma handle_keys_subset:
  assumes "set (Map_keys (userSockets st)) \<subseteq> set (Map_keys (userActivities st))"
  shows "set (Map_keys (userSockets (fst (handle st s e))))
           \<subseteq> set (Map_keys (userActivities (fst (handle st s e))))"
proof (cases e)
  case (On_user_connected u)
  then show ?thesis
    using assms by (auto simp: user_connected_def Let_def set_keys_Map_set)
next
  case (On_update_activity d)
  then show ?thesis
    using assms by (auto simp: update_activity_def set_keys_Map_set)
next
  case On_disconnect
  show ?thesis
    using assms by (auto simp: On_disconnect disconnect_eq set_keys_Map_delete split: option.splits)
qed (use assms in \<open>simp_all add: profile_updated_def follow_request_def follow_accepted_def
      follow_back_request_def follow_back_available_def send_message_def
      split: option.splits sum.splits\<close>)

lemma handle_keys_eq:
  assumes "set (Map_keys (userSockets st)) = set (Map_keys (userActivities st))"
    and "case e of On_update_activity d \<Rightarrow> au_userId d \<in> set (Map_keys (userSockets st)) | _ \<Rightarrow> True"
  shows "set (Map_keys (userSockets (fst (handle st s e))))
           = set (Map_keys (userActivities (fst (handle st s e))))"
proof (cases e)
  case (On_user_connected u)
  then show ?thesis
    using assms by (simp add: user_connected_def Let_def set_keys_Map_set)
next
  case (On_update_activity d)
  then show ?thesis
    using assms by (auto simp: update_activity_def set_keys_Map_set)
next
  case On_disconnect
  show ?thesis
    using assms by (simp add: On_disconnect disconnect_eq set_keys_Map_delete split: option.splits)
qed (use assms in \<open>simp_all add: profile_updated_def follow_request_def follow_accepted_def
      follow_back_request_def follow_back_available_def send_message_def
      split: option.splits sum.splits\<close>)

lemma run_keys_subset:
  "set (Map_keys (userSockets st)) \<subseteq> set (Map_keys (userActivities st)) \<Longrightarrow>
   set (Map_keys (userSockets (fst (run st evs)))) \<subseteq> set (Map_keys (userActivities (fst (run st evs))))"
proof (induction evs arbitrary: st)
  case Nil
  then show ?case by simp
next
  case (Cons x evs)
  obtain s e where x: "x = (s, e)" by (cases x)
  show ?case
    unfolding x run_Cons using Cons.prems by (intro Cons.IH handle_keys_subset)
qed

lemma run_keys_eq:
  "set (Map_keys (userSockets st)) = set (Map_keys (userActivities st)) \<Longrightarrow>
   activity_of_bound st evs \<Longrightarrow>
   set (Map_keys (userSockets (fst (run st evs)))) = set (Map_keys (userActivities (fst (run st evs))))"
proof (induction evs arbitrary: st)
  case Nil
  then show ?case by simp
next
  case (Cons x evs)
  obtain s e where x: "x = (s, e)" by (cases x)
  from Cons.prems(2)
  have g: "case e of On_update_activity d \<Rightarrow> au_userId d \<in> set (Map_keys (userSockets st)) | _ \<Rightarrow> True"
    and rest: "activity_of_bound (fst (handle st s e)) evs"
    by (simp_all add: x)
  show ?case
    unfolding x run_Cons using Cons.prems(1) g rest by (intro Cons.IH handle_keys_eq)
qed

text \<open>
  C8, as the code has it. \<^verbatim>\<open>update_activity\<close> stores a label for whatever user id its
  payload names, bound or not, so the activity map can hold user ids the registry lacks.
  After every sequence of inbound events from the empty state, every user id of the
  registry is a user id of the activity map; the two have the same user ids when every
  \<^verbatim>\<open>update_activity\<close> of the sequence names a user id that is in the registry when the
  event is handled. No window after connecting is excepted: \<^verbatim>\<open>user_connected\<close> writes
  both maps in one step.
\<close>

theorem presence_activity_membership:
  "set (Map_keys (userSockets (fst (run (initial a) evs))))
     \<subseteq> set (Map_keys (userActivities (fst (run (initial a) evs))))
   \<and> (activity_of_bound (initial a) evs \<longrightarrow>
        set (Map_keys (userSockets (fst (run (initial a) evs))))
          = set (Map_keys (userActivities (fst (run (initial a) evs)))))"
  using run_keys_subset [of "initial a" evs] run_keys_eq [of "initial a" evs]
  by (simp add: initial_def Map_keys_def)

theorem presence_activity_membership_witness:
  "activity_of_bound (initial (\<lambda>_. None))
       [(1, On_user_connected ''U1''), (2, On_update_activity \<lparr>au_userId = ''U1'', au_activity = ''Playing''\<rparr>),
        (2, On_user_connected ''U2''), (1, On_disconnect :: nat inbound)]
   \<and> set (Map_keys (userSockets (fst (run (initial (\<lambda>_. None))
       [(1, On_user_connected ''U1''), (2, On_update_activity \<lparr>au_userId = ''U1'', au_activity = ''Playing''\<rparr>),
        (2, On_user_connected ''U2''), (1, On_disconnect :: nat inbound)]))))
     = set (Map_keys (userActivities (fst (run (initial (\<lambda>_. None))
       [(1, On_user_connected ''U1''), (2, On_update_activity \<lparr>au_userId = ''U1'', au_activity = ''Playing''\<rparr>),
        (2, On_user_connected ''U2''), (1, On_disconnect :: nat inbound)]))))"
proof -
  have h: "activity_of_bound (initial (\<lambda>_. None))
       [(1, On_user_connected ''U1''), (2, On_update_activity \<lparr>au_userId = ''U1'', au_activity = ''Playing''\<rparr>),
        (2, On_user_connected ''U2''), (1, On_disconnect :: nat inbound)]"
    by (simp add: initial_def user_connected_def update_activity_def Let_def Map_keys_def)
  show ?thesis
    using h presence_activity_membership [of "\<lambda>_. None"
       "[(1, On_user_connected ''U1''), (2, On_update_activity \<lparr>au_userId = ''U1'', au_activity = ''Playing''\<rparr>),
        (2, On_user_connected ''U2''), (1, On_disconnect :: nat inbound)]"]
    by blast
qed

text \<open>
  The sequence on which C8 as written fails: an \<^verbatim>\<open>update_activity\<close> for \<open>U\<close> with nobody
  connected leaves the registry empty and the activity map with the key \<open>U\<close>.
\<close>

theorem activity_without_presence:
  "Map_keys (userSockets (fst (run (initial (\<lambda>_. None))
       [(1, On_update_activity \<lparr>au_userId = ''U'', au_activity = ''Playing''\<rparr> :: nat inbound)]))) = []
   \<and> Map_keys (userActivities (fst (run (initial (\<lambda>_. None))
       [(1, On_update_activity \<lparr>au_userId = ''U'', au_activity = ''Playing''\<rparr> :: nat inbound)]))) = [''U'']"
  by (simp add: initial_def update_activity_def Map_keys_def)

subsection \<open>Reconnecting under the same identity\<close>

text \<open>Every \<^verbatim>\<open>io.to(id).emit\<close> goes to the connection the registry holds for the handler's lookup key.\<close>

lemma directed_via_registry:
  assumes "Io_to_emit t ev \<in> set (snd (handle st s e))"
  shows "\<exists>k. lookup_key st s e = Some k \<and> Map_get (userSockets st) k = Some t"
  using assms
  by (cases e)
    (auto simp: user_connected_def Let_def update_activity_def profile_updated_def
      follow_request_def follow_accepted_def follow_back_request_def follow_back_available_def
      send_message_def send_message_try_def disconnect_eq
      split: option.splits sum.splits if_splits)

lemma handle_keeps_off:
  assumes "Map_get (userSockets st) U \<noteq> Some c" and "(s, e) \<noteq> (c, On_user_connected U)"
  shows "Map_get (userSockets (fst (handle st s e))) U \<noteq> Some c"
proof (cases e)
  case (On_user_connected u)
  then show ?thesis
    using assms by (auto simp: user_connected_def Let_def Map_get_set)
next
  case On_disconnect
  show ?thesis
    using assms by (auto simp: On_disconnect disconnect_eq Map_get_delete split: option.splits)
qed (use assms in \<open>simp_all add: update_activity_def profile_updated_def follow_request_def
      follow_accepted_def follow_back_request_def follow_back_available_def send_message_def
      split: option.splits sum.splits\<close>)

lemma run_keeps_off:
  "Map_get (userSockets st) U \<noteq> Some c \<Longrightarrow> (c, On_user_connected U) \<notin> set evs \<Longrightarrow>
   Map_get (userSockets (fst (run st evs))) U \<noteq> Some c"
proof (induction evs arbitrary: st)
  case Nil
  then show ?case by simp
next
  case (Cons x evs)
  obtain s e where x: "x = (s, e)" by (cases x)
  from Cons.prems(2) have ne: "(s, e) \<noteq> (c, On_user_connected U)"
    and rest: "(c, On_user_connected U) \<notin> set evs"
    by (auto simp: x)
  show ?case
    unfolding x run_Cons using Cons.prems(1) ne rest by (intro Cons.IH handle_keeps_off)
qed

lemma run_snoc_bind:
  "Map_get (userSockets (fst (run st (evs @ [(c, On_user_connected U)])))) U = Some c"
  by (simp add: run_append user_connected_def Let_def Map_get_set)

text \<open>
  C9, as the code has it. Connection \<open>first\<close> binds \<open>U\<close> and later, after any events
  \<open>mid\<close>, a different connection \<open>second\<close> binds \<open>U\<close>. Then the registry maps \<open>U\<close> to
  \<open>second\<close> and has one entry per user id. The first connection is out of reach through
  \<open>U\<close> only until it sends \<^verbatim>\<open>user_connected\<close> with \<open>U\<close> again, which makes it the last
  connection: after any further events \<open>later\<close> among which it does not do so, the
  registry does not map \<open>U\<close> to \<open>first\<close>, and no handler whose lookup key is \<open>U\<close> emits
  to \<open>first\<close> with \<^verbatim>\<open>io.to\<close>.
\<close>

theorem last_connection_wins:
  fixes later :: "(socket_id \<times> 'm inbound) list" and e :: "'m inbound"
  assumes "first \<noteq> second" and "(first, On_user_connected U) \<notin> set later"
  shows "let st2 = fst (run (initial a)
                     (pre @ [(first, On_user_connected U)] @ mid @ [(second, On_user_connected U)]));
             st = fst (run st2 later)
         in Map_get (userSockets st2) U = Some second
            \<and> distinct (Map_keys (userSockets st2))
            \<and> distinct (Map_keys (userSockets st))
            \<and> Map_get (userSockets st) U \<noteq> Some first
            \<and> (lookup_key st s e = Some U \<longrightarrow> Io_to_emit first ev \<notin> set (snd (handle st s e)))"
proof -
  let ?evs2 = "pre @ [(first, On_user_connected U)] @ mid @ [(second, On_user_connected U)]"
  let ?st2 = "fst (run (initial a) ?evs2)"
  let ?st = "fst (run ?st2 later)"
  have a: "Map_get (userSockets ?st2) U = Some second"
    using run_snoc_bind [of "initial a" "pre @ [(first, On_user_connected U)] @ mid" second U] by simp
  have d0: "distinct (Map_keys (userSockets (initial a)))"
    by (simp add: initial_def Map_keys_def)
  have b: "distinct (Map_keys (userSockets ?st2))"
    using d0 by (rule run_distinct_keys)
  then have c: "distinct (Map_keys (userSockets ?st))"
    by (rule run_distinct_keys)
  from a assms(1) have "Map_get (userSockets ?st2) U \<noteq> Some first" by simp
  then have off: "Map_get (userSockets ?st) U \<noteq> Some first"
    using assms(2) by (rule run_keeps_off)
  have "Io_to_emit first ev \<notin> set (snd (handle ?st s e))" if "lookup_key ?st s e = Some U"
    using directed_via_registry [of first ev ?st s e] that off by auto
  with a b c off show ?thesis
    by (simp add: Let_def)
qed

theorem last_connection_wins_witness:
  "(1 :: nat) \<noteq> 2
   \<and> (1, On_user_connected ''U1'') \<notin> set [(2 :: nat, On_update_activity \<lparr>au_userId = ''U1'', au_activity = ''Playing''\<rparr> :: nat inbound)]
   \<and> Map_get (userSockets (fst (run (initial (\<lambda>_. None))
        [(1, On_user_connected ''U1''), (2, On_user_connected ''U1'' :: nat inbound)]))) ''U1'' = Some 2
   \<and> Io_to_emit 1 (Ev_follow_request ''U2'' ''Ann'' ''a.png'')
        \<notin> set (snd (handle
              (fst (run (initial (\<lambda>_. None))
                 [(1, On_user_connected ''U1''), (2, On_user_connected ''U1''),
                  (2, On_update_activity \<lparr>au_userId = ''U1'', au_activity = ''Playing''\<rparr> :: nat inbound)]))
              3
              (On_follow_request \<lparr>targetUserId = ''U1'', requesterId = ''U2'',
                 requesterName = ''Ann'', requesterImageUrl = ''a.png''\<rparr> :: nat inbound)))"
  using last_connection_wins [where first = 1 and second = 2 and U = "''U1''" and a = "\<lambda>_. None"
      and pre = "[]" and mid = "[]"
      and later = "[(2, On_update_activity \<lparr>au_userId = ''U1'', au_activity = ''Playing''\<rparr> :: nat inbound)]"
      and s = 3
      and e = "On_follow_request \<lparr>targetUserId = ''U1'', requesterId = ''U2'',
                 requesterName = ''Ann'', requesterImageUrl = ''a.png''\<rparr>"
      and ev = "Ev_follow_request ''U2'' ''Ann'' ''a.png''"]
  by (simp add: Let_def initial_def user_connected_def update_activity_def follow_request_def)

text \<open>
  The sequence on which C9 as written fails: connections 1 and 2 bind \<open>U1\<close> in turn,
  connection 1 binds \<open>U1\<close> again, and the next \<^verbatim>\<open>follow_request\<close> for \<open>U1\<close> is emitted
  to connection 1 through the registry entry of \<open>U1\<close>.
\<close>

theorem first_connection_rebinds:
  "snd (handle
          (fst (run (initial (\<lambda>_. None))
             [(1, On_user_connected ''U1''), (2, On_user_connected ''U1''),
              (1, On_user_connected ''U1'' :: nat inbound)]))
          3
          (On_follow_request \<lparr>targetUserId = ''U1'', requesterId = ''U2'',
             requesterName = ''Ann'', requesterImageUrl = ''a.png''\<rparr> :: nat inbound))
     = [Io_to_emit 1 (Ev_follow_request ''U2'' ''Ann'' ''a.png'')]"
  by (simp add: initial_def user_connected_def follow_request_def Let_def)

subsection \<open>The self-addressed follow-back notice\<close>






end
